theory Spec2Isabelle
  imports Main
begin

section \<open>JavaScript string primitives used by the worker\<close>

text \<open>
  A JavaScript string is modelled as a \<^typ>\<open>string\<close>, each \<^typ>\<open>char\<close> standing for
  one code unit below 256 (the Latin-1 range). The primitives below are the builtins that
  \<^verbatim>\<open>src/server.js\<close> calls, restricted to that range: \<^verbatim>\<open>toLowerCase\<close>,
  \<^verbatim>\<open>trim\<close>, \<^verbatim>\<open>split\<close>, \<^verbatim>\<open>slice(0, n)\<close>, \<^verbatim>\<open>padStart(2, '0')\<close>,
  \<^verbatim>\<open>String(n)\<close> and the three regular-expression replacements.
\<close>

definition truthy :: "string \<Rightarrow> bool" where
  \<comment> \<open>a string is falsy exactly when it is empty\<close>
  "truthy s = (s \<noteq> [])"

definition js_or :: "string \<Rightarrow> string \<Rightarrow> string" where
  \<comment> \<open>\<^verbatim>\<open>a || b\<close> on strings\<close>
  "js_or a b = (if truthy a then a else b)"

definition to_lower_char :: "char \<Rightarrow> char" where
  "to_lower_char c =
     (let n = (of_char c :: nat)
      in if (65 \<le> n \<and> n \<le> 90) \<or> (192 \<le> n \<and> n \<le> 222 \<and> n \<noteq> 215)
         then char_of (n + 32) else c)"

definition toLowerCase :: "string \<Rightarrow> string" where
  "toLowerCase s = map to_lower_char s"

definition is_space :: "char \<Rightarrow> bool" where
  \<comment> \<open>the class \<^verbatim>\<open>\s\<close>, which is also what \<^verbatim>\<open>trim\<close> removes: TAB, LF, VT, FF, CR, SP, NBSP\<close>
  "is_space c = (let n = (of_char c :: nat) in (9 \<le> n \<and> n \<le> 13) \<or> n = 32 \<or> n = 160)"

definition trim :: "string \<Rightarrow> string" where
  "trim s = rev (dropWhile is_space (rev (dropWhile is_space s)))"

fun split_on :: "char \<Rightarrow> string \<Rightarrow> string list" where
  "split_on d [] = [[]]"
| "split_on d (c # cs) =
     (if c = d then [] # split_on d cs
      else (case split_on d cs of
              [] \<Rightarrow> [[c]]
            | p # ps \<Rightarrow> (c # p) # ps))"

fun nth_piece :: "string list \<Rightarrow> nat \<Rightarrow> string option" where
  \<comment> \<open>array indexing and destructuring: a missing element is \<^verbatim>\<open>undefined\<close>\<close>
  "nth_piece [] n = None"
| "nth_piece (p # ps) 0 = Some p"
| "nth_piece (p # ps) (Suc n) = nth_piece ps n"

definition opt_truthy :: "string option \<Rightarrow> bool" where
  \<comment> \<open>truthiness of a value that is a string, \<^verbatim>\<open>null\<close> or \<^verbatim>\<open>undefined\<close>\<close>
  "opt_truthy v = (case v of None \<Rightarrow> False | Some s \<Rightarrow> truthy s)"

definition opt_or :: "string option \<Rightarrow> string \<Rightarrow> string" where
  \<comment> \<open>\<^verbatim>\<open>v || d\<close> where \<^verbatim>\<open>v\<close> is a string, \<^verbatim>\<open>null\<close> or \<^verbatim>\<open>undefined\<close>\<close>
  "opt_or v d = (case v of None \<Rightarrow> d | Some s \<Rightarrow> js_or s d)"

definition digit_char :: "nat \<Rightarrow> char" where
  "digit_char n = char_of (48 + n)"

fun string_of_nat :: "nat \<Rightarrow> string" where
  \<comment> \<open>\<^verbatim>\<open>String(n)\<close> of a non-negative integer\<close>
  "string_of_nat n =
     (if n < 10 then [digit_char n]
      else string_of_nat (n div 10) @ [digit_char (n mod 10)])"

declare string_of_nat.simps [simp del]

definition padStart2 :: "string \<Rightarrow> string" where
  \<comment> \<open>\<^verbatim>\<open>s.padStart(2, '0')\<close>\<close>
  "padStart2 s = replicate (2 - length s) (CHR ''0'') @ s"

subsection \<open>The regular-expression replacements\<close>

definition key_char_ok :: "char \<Rightarrow> bool" where
  \<comment> \<open>membership in the class \<^verbatim>\<open>[a-z0-9@._-]\<close>\<close>
  "key_char_ok c =
     (let n = (of_char c :: nat)
      in (97 \<le> n \<and> n \<le> 122) \<or> (48 \<le> n \<and> n \<le> 57)
         \<or> c = CHR ''@'' \<or> c = CHR ''.'' \<or> c = CHR ''_'' \<or> c = CHR ''-'')"

fun replace_unsafe :: "string \<Rightarrow> string" where
  \<comment> \<open>\<^verbatim>\<open>s.replace(/[^a-z0-9@._-]/g, '_')\<close>\<close>
  "replace_unsafe [] = []"
| "replace_unsafe (c # cs) =
     (if key_char_ok c then c # replace_unsafe cs else CHR ''_'' # replace_unsafe cs)"

function strip_tags :: "string \<Rightarrow> string" where
  \<comment> \<open>\<^verbatim>\<open>s.replace(/<[^>]+>/g, ' ')\<close>: at a \<^verbatim>\<open><\<close> the pattern matches up to the next
      \<^verbatim>\<open>>\<close>, provided there is one and at least one character lies between\<close>
  "strip_tags [] = []"
| "strip_tags (c # cs) =
     (if c = CHR ''<'' \<and> takeWhile (\<lambda>x. x \<noteq> CHR ''>'') cs \<noteq> []
          \<and> dropWhile (\<lambda>x. x \<noteq> CHR ''>'') cs \<noteq> []
      then CHR '' '' # strip_tags (tl (dropWhile (\<lambda>x. x \<noteq> CHR ''>'') cs))
      else c # strip_tags cs)"
  by pat_completeness auto
termination
proof (relation "measure length")
  show "wf (measure length)" by simp
next
  fix c :: char and cs :: string
  have "length (tl (dropWhile (\<lambda>x. x \<noteq> CHR ''>'') cs)) \<le> length cs"
    using length_dropWhile_le [of "\<lambda>x. x \<noteq> CHR ''>''" cs] by simp
  then show "(tl (dropWhile (\<lambda>x. x \<noteq> CHR ''>'') cs), c # cs) \<in> measure length"
    by simp
next
  fix c :: char and cs :: string
  show "(cs, c # cs) \<in> measure length" by simp
qed

function collapse_ws :: "string \<Rightarrow> string" where
  \<comment> \<open>\<^verbatim>\<open>s.replace(/\s+/g, ' ')\<close>\<close>
  "collapse_ws [] = []"
| "collapse_ws (c # cs) =
     (if is_space c then CHR '' '' # collapse_ws (dropWhile is_space cs)
      else c # collapse_ws cs)"
  by pat_completeness auto
termination
proof (relation "measure length")
  show "wf (measure length)" by simp
next
  fix c :: char and cs :: string
  show "(dropWhile is_space cs, c # cs) \<in> measure length"
    using length_dropWhile_le [of is_space cs] by simp
next
  fix c :: char and cs :: string
  show "(cs, c # cs) \<in> measure length" by simp
qed

section \<open>Content Extractor: the preview (server.js, lines 159-162)\<close>

definition preview :: "string \<Rightarrow> string \<Rightarrow> string" where
  "preview textContent htmlContent =
     (let plain = (if truthy textContent \<and> truthy (trim textContent) then textContent
                   else trim (collapse_ws (strip_tags (js_or htmlContent []))))
      in take 120 (js_or plain []))"

section \<open>Message Archiver: the object key (server.js, lines 141-151)\<close>

text \<open>
  \<^verbatim>\<open>new Date()\<close> is read through its six UTC getters only, so the clock is modelled by
  the values these getters return (\<^verbatim>\<open>getUTCMonth\<close> counts from 0).
\<close>

record utc_date =
  getUTCFullYear :: nat
  getUTCMonth :: nat
  getUTCDate :: nat
  getUTCHours :: nat
  getUTCMinutes :: nat
  getUTCSeconds :: nat

definition valid_utc :: "utc_date \<Rightarrow> bool" where
  \<comment> \<open>the ranges of the getters\<close>
  "valid_utc t =
     (getUTCMonth t < 12 \<and> 1 \<le> getUTCDate t \<and> getUTCDate t \<le> 31 \<and> getUTCHours t < 24
      \<and> getUTCMinutes t < 60 \<and> getUTCSeconds t < 60)"

definition key_id :: "string option \<Rightarrow> nat \<Rightarrow> string \<Rightarrow> string" where
  \<comment> \<open>\<^verbatim>\<open>(crypto?.randomUUID && crypto.randomUUID()) || `${Date.now()}-${Math.random().toString(36).slice(2)}`\<close>;
      the first argument is the UUID when the generator exists, the others are
      \<^verbatim>\<open>Date.now()\<close> and the random suffix\<close>
  "key_id randomUUID date_now random36 =
     opt_or randomUUID (string_of_nat date_now @ ''-'' @ random36)"

definition safe_mailbox :: "string \<Rightarrow> string" where
  "safe_mailbox mailbox = replace_unsafe (toLowerCase (js_or mailbox ''unknown''))"

definition object_key :: "utc_date \<Rightarrow> string \<Rightarrow> string \<Rightarrow> string" where
  "object_key now keyId mailbox =
     (let y = string_of_nat (getUTCFullYear now);
          m = padStart2 (string_of_nat (getUTCMonth now + 1));
          d = padStart2 (string_of_nat (getUTCDate now));
          hh = padStart2 (string_of_nat (getUTCHours now));
          mm = padStart2 (string_of_nat (getUTCMinutes now));
          ss = padStart2 (string_of_nat (getUTCSeconds now))
      in y @ ''/'' @ m @ ''/'' @ d @ ''/'' @ safe_mailbox mailbox @ ''/''
           @ hh @ mm @ ss @ ''-'' @ keyId @ ''.eml'')"

section \<open>The stores\<close>

text \<open>
  The two tables, with the columns that \<^verbatim>\<open>server.js\<close> reads or writes. Timestamps are
  seconds; the flags are the integers 0 and 1 of the datastore. Rows are kept in table
  order. An inserted row gets the next free identifier, which is never 0.
\<close>

record mailbox_row =
  mb_id :: nat
  address :: string
  local_part :: string
  mb_domain :: string
  password_hash :: "string option"
  created_at :: int
  last_accessed_at :: int
  is_pinned :: int
  is_favorite :: int

record message_row =
  msg_id :: nat
  mailbox_id :: nat
  sender :: string
  to_addrs :: string
  subject :: string
  verification_code :: "string option"
  preview_col :: "string option"
  r2_bucket :: string
  r2_object_key :: string

record database =
  mailboxes :: "mailbox_row list"
  messages :: "message_row list"

definition next_id :: "nat list \<Rightarrow> nat" where
  "next_id ids = Suc (fold max ids 0)"

definition select_mailbox_ids :: "database \<Rightarrow> string \<Rightarrow> nat list" where
  \<comment> \<open>\<^verbatim>\<open>SELECT id FROM mailboxes WHERE address = ?\<close>\<close>
  "select_mailbox_ids d a = map mb_id (filter (\<lambda>r. address r = a) (mailboxes d))"

definition insert_mailbox :: "int \<Rightarrow> string \<Rightarrow> string \<Rightarrow> string \<Rightarrow> database \<Rightarrow> database" where
  \<comment> \<open>Modelled from the spec: the table schema is not in \<^verbatim>\<open>src/\<close>. The statement is
      \<^verbatim>\<open>INSERT INTO mailboxes (address, local_part, domain, password_hash, last_accessed_at)
      VALUES (?, ?, ?, NULL, CURRENT_TIMESTAMP)\<close>; the columns it does not list take the
      defaults the spec gives: the creation time is now and neither flag is set\<close>
  "insert_mailbox clock a lp dm d =
     d\<lparr>mailboxes := mailboxes d @
        [\<lparr>mb_id = next_id (map mb_id (mailboxes d)), address = a, local_part = lp,
          mb_domain = dm, password_hash = None, created_at = clock,
          last_accessed_at = clock, is_pinned = 0, is_favorite = 0\<rparr>]\<rparr>"

definition insert_message ::
  "nat \<Rightarrow> string \<Rightarrow> string \<Rightarrow> string \<Rightarrow> string option \<Rightarrow> string option \<Rightarrow> string \<Rightarrow> string
     \<Rightarrow> database \<Rightarrow> database" where
  \<comment> \<open>\<^verbatim>\<open>INSERT INTO messages (mailbox_id, sender, to_addrs, subject, verification_code,
      preview, r2_bucket, r2_object_key) VALUES (?, ?, ?, ?, ?, ?, ?, ?)\<close>\<close>
  "insert_message mid snd_addr tos subj code pv bucket okey d =
     d\<lparr>messages := messages d @
        [\<lparr>msg_id = next_id (map msg_id (messages d)), mailbox_id = mid, sender = snd_addr,
          to_addrs = tos, subject = subj, verification_code = code, preview_col = pv,
          r2_bucket = bucket, r2_object_key = okey\<rparr>]\<rparr>"

datatype dispatch = ForwardByMailboxConfig string | ForwardByLocalPart string

datatype handler_error = MailboxResolutionError

datatype log_entry =
    DbConnectFailed
  | R2PutFailed
  | EmailHandlingError handler_error
  | R2DeleteFailed string
  | SweepDone

text \<open>
  What one invocation may change: the datastore, the blob store (object key to object),
  the forwarding calls made so far and the console.
\<close>

record world =
  db :: database
  blobs :: "string \<rightharpoonup> string"
  forwards :: "dispatch list"
  console :: "log_entry list"

text \<open>
  What an invocation finds around it: whether \<^verbatim>\<open>getInitializedDatabase\<close> returns a
  connection, whether the binding \<^verbatim>\<open>env.MAIL_EML\<close> is set, whether its \<^verbatim>\<open>put\<close> and
  \<^verbatim>\<open>delete\<close> raise, the clocks and the random sources. Statements issued on a
  connection that was obtained are taken to succeed.
\<close>

record env =
  db_available :: bool
  mail_eml :: bool
  put_raises :: bool
  delete_raises :: "string \<Rightarrow> bool"
  now :: utc_date
  db_clock :: int
  randomUUID :: "string option"
  date_now :: nat
  random36 :: string

text \<open>
  The functions that \<^verbatim>\<open>server.js\<close> imports from modules outside \<^verbatim>\<open>src/\<close> are
  parameters of the model. \<^verbatim>\<open>parseEmailBody\<close> and \<^verbatim>\<open>extractVerificationCode\<close> are
  called inside \<^verbatim>\<open>try\<close> blocks: \<open>None\<close> stands for a call that raises.
\<close>

record helpers =
  extractEmail :: "string \<Rightarrow> string"
  getForwardTarget :: "database \<Rightarrow> string \<Rightarrow> string option"
  parseEmailBody :: "string \<Rightarrow> (string \<times> string) option"
  extractVerificationCode :: "string \<Rightarrow> string \<Rightarrow> string \<Rightarrow> string option"

section \<open>The inbound message\<close>

text \<open>
  \<^verbatim>\<open>message.to\<close> is an array of entries, a string, or anything else (absent). An entry
  is a string, an object with or without an \<^verbatim>\<open>address\<close>, or \<^verbatim>\<open>null\<close>. A header that
  is not set reads as \<^verbatim>\<open>null\<close>. \<open>msg_raw\<close> is the decoded text of \<^verbatim>\<open>message.raw\<close>,
  \<open>None\<close> when reading the stream raises.
\<close>

datatype recipient = RString string | RObject "string option" | RNull

datatype envelope_to = ToArray "recipient list" | ToString string | ToAbsent

record message =
  hdr_to :: "string option"
  hdr_from :: "string option"
  hdr_subject :: "string option"
  msg_to :: envelope_to
  msg_raw :: "string option"

datatype js_error = TypeError

section \<open>Address Resolver (server.js, lines 94-111)\<close>

definition no_subject :: string where
  \<comment> \<open>stands for the placeholder literal of lines 97 and 204, which is not Latin-1\<close>
  "no_subject = ''(no subject)''"

definition toHeader :: "message \<Rightarrow> string" where
  "toHeader msg = opt_or (hdr_to msg) []"

definition fromHeader :: "message \<Rightarrow> string" where
  "fromHeader msg = opt_or (hdr_from msg) []"

definition subject_of :: "message \<Rightarrow> string" where
  "subject_of msg = opt_or (hdr_subject msg) no_subject"

fun envelope_try :: "envelope_to \<Rightarrow> js_error + string" where
  \<comment> \<open>the body of the \<^verbatim>\<open>try\<close> of lines 100-107, entered with \<^verbatim>\<open>envelopeTo = ''\<close>:
      the value of \<^verbatim>\<open>envelopeTo\<close> at its end, or the error it raises
      (\<^verbatim>\<open>toValue[0].address\<close> on \<^verbatim>\<open>null\<close>)\<close>
  "envelope_try (ToArray []) = Inr []"
| "envelope_try (ToArray (RString s # vs)) = Inr s"
| "envelope_try (ToArray (RObject a # vs)) = Inr (opt_or a [])"
| "envelope_try (ToArray (RNull # vs)) = Inl TypeError"
| "envelope_try (ToString s) = Inr s"
| "envelope_try ToAbsent = Inr []"

definition envelopeTo :: "message \<Rightarrow> string" where
  \<comment> \<open>the \<^verbatim>\<open>catch\<close> leaves \<^verbatim>\<open>envelopeTo\<close> as it was, the empty string\<close>
  "envelopeTo msg = (case envelope_try (msg_to msg) of Inl e \<Rightarrow> [] | Inr s \<Rightarrow> s)"

definition resolvedRecipient :: "message \<Rightarrow> string" where
  "resolvedRecipient msg = js_or (envelopeTo msg) (js_or (toHeader msg) [])"

definition resolvedRecipientAddr :: "helpers \<Rightarrow> message \<Rightarrow> string" where
  "resolvedRecipientAddr h msg = extractEmail h (resolvedRecipient msg)"

definition localPart :: "helpers \<Rightarrow> message \<Rightarrow> string" where
  "localPart h msg =
     toLowerCase (opt_or (nth_piece (split_on (CHR ''@'') (resolvedRecipientAddr h msg)) 0) [])"

definition mailbox_of :: "helpers \<Rightarrow> message \<Rightarrow> string" where
  \<comment> \<open>line 136\<close>
  "mailbox_of h msg = extractEmail h (js_or (resolvedRecipient msg) (toHeader msg))"

section \<open>Forwarding Decider (server.js, lines 113-118)\<close>

definition forward_dispatch :: "string option \<Rightarrow> string \<Rightarrow> dispatch" where
  "forward_dispatch mailboxForwardTo lp =
     (if opt_truthy mailboxForwardTo
      then ForwardByMailboxConfig (opt_or mailboxForwardTo [])
      else ForwardByLocalPart lp)"

definition forward_step :: "helpers \<Rightarrow> message \<Rightarrow> world \<Rightarrow> world" where
  "forward_step h msg w =
     w\<lparr>forwards := forwards w @
         [forward_dispatch (getForwardTarget h (db w) (resolvedRecipientAddr h msg))
            (localPart h msg)]\<rparr>"

section \<open>Content Extractor: the bodies (server.js, lines 120-134)\<close>

definition extract_bodies :: "helpers \<Rightarrow> message \<Rightarrow> string option \<times> string \<times> string" where
  \<comment> \<open>\<^verbatim>\<open>(rawBuffer, textContent, htmlContent)\<close>; the \<^verbatim>\<open>catch\<close> empties both bodies and
      keeps a buffer that was already read\<close>
  "extract_bodies h msg =
     (case msg_raw msg of
        None \<Rightarrow> (None, [], [])
      | Some rawText \<Rightarrow>
          (case parseEmailBody h rawText of
             None \<Rightarrow> (Some rawText, [], [])
           | Some (t, html) \<Rightarrow>
               (Some rawText,
                if \<not> truthy t \<and> \<not> truthy html then take 100000 rawText else t,
                html)))"

section \<open>Message Archiver: the blob write (server.js, lines 139-157)\<close>

definition archive :: "env \<Rightarrow> string option \<Rightarrow> string \<Rightarrow> world \<Rightarrow> string \<times> world" where
  \<comment> \<open>the object key after the \<^verbatim>\<open>try\<close>, and the world; the key is assigned before
      \<^verbatim>\<open>put\<close> is called, and the \<^verbatim>\<open>catch\<close> only logs\<close>
  "archive e rawBuffer mailbox w =
     (let objectKey = object_key (now e) (key_id (randomUUID e) (date_now e) (random36 e)) mailbox
      in case rawBuffer of
           None \<Rightarrow> (objectKey, w)
         | Some bytes \<Rightarrow>
             if \<not> mail_eml e then (objectKey, w)
             else if put_raises e then (objectKey, w\<lparr>console := console w @ [R2PutFailed]\<rparr>)
             else (objectKey, w\<lparr>blobs := (blobs w)(objectKey \<mapsto> bytes)\<rparr>))"

section \<open>Mailbox Provisioner (server.js, lines 168-181)\<close>

definition find_or_create :: "int \<Rightarrow> string \<Rightarrow> database \<Rightarrow> nat option \<times> database" where
  \<comment> \<open>\<^verbatim>\<open>mailboxId\<close> (\<open>None\<close> for \<^verbatim>\<open>undefined\<close>) and the datastore afterwards\<close>
  "find_or_create clock mailbox d =
     (let a = toLowerCase mailbox
      in case select_mailbox_ids d a of
           i # ids \<Rightarrow> (Some i, d)
         | [] \<Rightarrow>
             (let parts = split_on (CHR ''@'') (toLowerCase (js_or mailbox []));
                  localPartMb = nth_piece parts 0;
                  dm = nth_piece parts 1
              in if opt_truthy localPartMb \<and> opt_truthy dm
                 then (let d' = insert_mailbox clock (toLowerCase (js_or mailbox []))
                                  (opt_or localPartMb []) (opt_or dm []) d
                       in (case select_mailbox_ids d' (toLowerCase (js_or mailbox [])) of
                             [] \<Rightarrow> None
                           | i # ids \<Rightarrow> Some i, d'))
                 else (None, d)))"

definition id_truthy :: "nat option \<Rightarrow> bool" where
  \<comment> \<open>\<^verbatim>\<open>!mailboxId\<close> holds for \<^verbatim>\<open>undefined\<close> and for 0\<close>
  "id_truthy v = (case v of None \<Rightarrow> False | Some i \<Rightarrow> i \<noteq> 0)"

section \<open>Recording the message (server.js, lines 183-209)\<close>

fun join_comma :: "string list \<Rightarrow> string" where
  "join_comma [] = []"
| "join_comma [x] = x"
| "join_comma (x # y # ys) = x @ '','' @ join_comma (y # ys)"

definition recipient_address :: "recipient \<Rightarrow> string" where
  \<comment> \<open>\<^verbatim>\<open>typeof v === 'string' ? v : (v?.address || '')\<close>\<close>
  "recipient_address v =
     (case v of RString s \<Rightarrow> s | RObject a \<Rightarrow> opt_or a [] | RNull \<Rightarrow> [])"

definition toAddrs :: "message \<Rightarrow> string" where
  "toAddrs msg =
     (case msg_to msg of
        ToArray vs \<Rightarrow> join_comma (filter truthy (map recipient_address vs))
      | ToString s \<Rightarrow> s
      | ToAbsent \<Rightarrow> js_or (resolvedRecipient msg) (js_or (toHeader msg) []))"

definition null_if_empty :: "string \<Rightarrow> string option" where
  \<comment> \<open>\<^verbatim>\<open>s || null\<close>\<close>
  "null_if_empty s = (if truthy s then Some s else None)"

section \<open>The email handler (server.js, lines 84-213)\<close>

definition email_try :: "helpers \<Rightarrow> env \<Rightarrow> message \<Rightarrow> world \<Rightarrow> handler_error option \<times> world" where
  \<comment> \<open>the \<^verbatim>\<open>try\<close> block of lines 93-209: the error it raises, if any, and the world
      at that point\<close>
  "email_try h e msg w =
     (let w1 = forward_step h msg w;
          (rawBuffer, textContent, htmlContent) = extract_bodies h msg;
          mailbox = mailbox_of h msg;
          snd_addr = extractEmail h (fromHeader msg);
          (objectKey, w2) = archive e rawBuffer mailbox w1;
          pv = preview textContent htmlContent;
          verificationCode =
            (case extractVerificationCode h (subject_of msg) textContent htmlContent of
               None \<Rightarrow> [] | Some c \<Rightarrow> c);
          (mailboxId, d3) = find_or_create (db_clock e) mailbox (db w2);
          w3 = w2\<lparr>db := d3\<rparr>
      in if \<not> id_truthy mailboxId then (Some MailboxResolutionError, w3)
         else (None,
               w3\<lparr>db := insert_message (case mailboxId of None \<Rightarrow> 0 | Some i \<Rightarrow> i) snd_addr
                           (js_or (toAddrs msg) []) (js_or (subject_of msg) no_subject)
                           (null_if_empty verificationCode) (null_if_empty pv)
                           ''mail-eml'' (js_or objectKey []) d3\<rparr>))"

definition email :: "helpers \<Rightarrow> env \<Rightarrow> message \<Rightarrow> world \<Rightarrow> world" where
  "email h e msg w =
     (if \<not> db_available e then w\<lparr>console := console w @ [DbConnectFailed]\<rparr>
      else (case email_try h e msg w of
              (None, w') \<Rightarrow> w'
            | (Some err, w') \<Rightarrow> w'\<lparr>console := console w' @ [EmailHandlingError err]\<rparr>))"

section \<open>Expiry Sweeper (server.js, lines 218-271)\<close>

definition EXPIRE_MINUTES :: int where
  "EXPIRE_MINUTES = 30"

definition expired :: "int \<Rightarrow> mailbox_row \<Rightarrow> bool" where
  \<comment> \<open>\<^verbatim>\<open>created_at <= datetime('now', '-30 minutes')\<close>\<close>
  "expired clock r = (created_at r \<le> clock - EXPIRE_MINUTES * 60)"

definition expired_keys :: "int \<Rightarrow> database \<Rightarrow> string list" where
  \<comment> \<open>step 1: the keys of the joined rows, those with an empty key left out\<close>
  "expired_keys clock d =
     concat (map (\<lambda>m. map (\<lambda>r. r2_object_key m)
                         (filter (\<lambda>r. mailbox_id m = mb_id r \<and> expired clock r
                                        \<and> r2_object_key m \<noteq> []) (mailboxes d)))
                 (messages d))"

definition r2_delete :: "env \<Rightarrow> string \<Rightarrow> world \<Rightarrow> world" where
  \<comment> \<open>step 2, one key: a failed delete is logged\<close>
  "r2_delete e k w =
     (if delete_raises e k then w\<lparr>console := console w @ [R2DeleteFailed k]\<rparr>
      else w\<lparr>blobs := (blobs w)(k := None)\<rparr>)"

definition delete_messages :: "int \<Rightarrow> database \<Rightarrow> database" where
  \<comment> \<open>step 3\<close>
  "delete_messages clock d =
     d\<lparr>messages :=
         filter (\<lambda>m. mailbox_id m \<notin> set (map mb_id (filter (expired clock) (mailboxes d))))
           (messages d)\<rparr>"

definition delete_mailboxes :: "int \<Rightarrow> database \<Rightarrow> database" where
  \<comment> \<open>step 4\<close>
  "delete_mailboxes clock d =
     d\<lparr>mailboxes :=
         filter (\<lambda>r. \<not> (expired clock r \<and> is_pinned r = 0 \<and> is_favorite r = 0))
           (mailboxes d)\<rparr>"

definition scheduled :: "env \<Rightarrow> world \<Rightarrow> world" where
  "scheduled e w =
     (if \<not> db_available e then w\<lparr>console := console w @ [DbConnectFailed]\<rparr>
      else
        (let expiredMessages = expired_keys (db_clock e) (db w);
             w1 = (if mail_eml e \<and> expiredMessages \<noteq> []
                   then fold (r2_delete e) (filter truthy expiredMessages) w else w);
             d3 = delete_messages (db_clock e) (db w1);
             d4 = delete_mailboxes (db_clock e) d3
         in w1\<lparr>db := d4, console := console w1 @ [SweepDone]\<rparr>))"

section \<open>The specification's wording, for comparison with the code\<close>

definition is_digit :: "char \<Rightarrow> bool" where
  "is_digit c = (let n = (of_char c :: nat) in 48 \<le> n \<and> n \<le> 57)"

definition spec_two_digits :: "nat \<Rightarrow> string" where
  \<comment> \<open>a zero-padded two-digit component\<close>
  "spec_two_digits n = [digit_char (n div 10), digit_char (n mod 10)]"

definition spec_sanitize :: "string \<Rightarrow> string" where
  \<comment> \<open>the mailbox (or \<^verbatim>\<open>unknown\<close>) lowercased, every character outside the class replaced\<close>
  "spec_sanitize mailbox =
     map (\<lambda>c. if key_char_ok c then c else CHR ''_'')
       (map to_lower_char (if mailbox = [] then ''unknown'' else mailbox))"

definition spec_envelope_value :: "envelope_to \<Rightarrow> string" where
  \<comment> \<open>the recipient the envelope gives: the string itself, or the first entry of the list\<close>
  "spec_envelope_value v =
     (case v of
        ToString s \<Rightarrow> s
      | ToArray (RString s # vs) \<Rightarrow> s
      | ToArray (RObject (Some a) # vs) \<Rightarrow> a
      | _ \<Rightarrow> [])"

definition owned_by :: "mailbox_row \<Rightarrow> message_row list \<Rightarrow> message_row list" where
  \<comment> \<open>the message rows that belong to a mailbox\<close>
  "owned_by r ms = filter (\<lambda>m. mailbox_id m = mb_id r) ms"

definition rows_for :: "string \<Rightarrow> database \<Rightarrow> mailbox_row list" where
  \<comment> \<open>the mailbox rows stored under an address\<close>
  "rows_for a d = filter (\<lambda>r. address r = a) (mailboxes d)"

fun single_spaced :: "string \<Rightarrow> bool" where
  \<comment> \<open>every whitespace character is a single blank with no whitespace after it\<close>
  "single_spaced [] = True"
| "single_spaced [c] = (is_space c \<longrightarrow> c = CHR '' '')"
| "single_spaced (c # d # cs) =
     ((is_space c \<longrightarrow> c = CHR '' '' \<and> \<not> is_space d) \<and> single_spaced (d # cs))"

definition tag_at :: "char \<Rightarrow> string \<Rightarrow> bool" where
  \<comment> \<open>a tag starts at \<open>c\<close>, followed by \<open>cs\<close>: a \<^verbatim>\<open><\<close>, at least one character
      other than \<^verbatim>\<open>>\<close>, and a \<^verbatim>\<open>>\<close>\<close>
  "tag_at c cs =
     (c = CHR ''<'' \<and> takeWhile (\<lambda>x. x \<noteq> CHR ''>'') cs \<noteq> []
        \<and> dropWhile (\<lambda>x. x \<noteq> CHR ''>'') cs \<noteq> [])"

fun has_tag :: "string \<Rightarrow> bool" where
  \<comment> \<open>a tag starts somewhere in the string\<close>
  "has_tag [] = False"
| "has_tag (c # cs) = (tag_at c cs \<or> has_tag cs)"

section \<open>Sample inputs\<close>

text \<open>
  Concrete values at which the theorems below are instantiated. \<open>ex_helpers\<close> is one
  possible choice of the imported functions: the address extractor returns its argument,
  one address has a forward target, the body parser returns the raw text as the plain
  body, and no verification code is found.
\<close>

definition ex_helpers :: helpers where
  "ex_helpers =
     \<lparr>extractEmail = (\<lambda>s. s),
      getForwardTarget = (\<lambda>d a. if a = ''fwd@example.com'' then Some ''owner@example.org'' else None),
      parseEmailBody = (\<lambda>s. Some (s, [])),
      extractVerificationCode = (\<lambda>s t html. Some [])\<rparr>"

definition ex_date :: utc_date where
  "ex_date =
     \<lparr>getUTCFullYear = 2024, getUTCMonth = 0, getUTCDate = 5, getUTCHours = 7,
      getUTCMinutes = 8, getUTCSeconds = 9\<rparr>"

definition ex_env :: env where
  \<comment> \<open>the datastore is reachable, the blob store is bound and its \<^verbatim>\<open>put\<close> raises\<close>
  "ex_env =
     \<lparr>db_available = True, mail_eml = True, put_raises = True, delete_raises = (\<lambda>k. False),
      now = ex_date, db_clock = 100000, randomUUID = Some ''u1'', date_now = 0,
      random36 = ''r''\<rparr>"

definition ex_world :: world where
  "ex_world =
     \<lparr>db = \<lparr>mailboxes = [], messages = []\<rparr>, blobs = Map.empty, forwards = [], console = []\<rparr>"

definition ex_message :: message where
  "ex_message =
     \<lparr>hdr_to = Some ''A@b.c'', hdr_from = Some ''x@y.z'', hdr_subject = None,
      msg_to = ToString ''A@b.c'', msg_raw = Some ''hi''\<rparr>"

definition ex_message_no_at :: message where
  "ex_message_no_at =
     \<lparr>hdr_to = Some ''nobody'', hdr_from = Some ''x@y.z'', hdr_subject = None,
      msg_to = ToAbsent, msg_raw = Some ''hi''\<rparr>"

definition ex_message_fwd :: message where
  "ex_message_fwd =
     \<lparr>hdr_to = None, hdr_from = None, hdr_subject = None,
      msg_to = ToArray [RObject (Some ''fwd@example.com'')], msg_raw = None\<rparr>"

definition ex_message_null :: message where
  "ex_message_null =
     \<lparr>hdr_to = Some ''h@b.c'', hdr_from = None, hdr_subject = None,
      msg_to = ToArray [RNull], msg_raw = None\<rparr>"

definition ex_mailbox :: mailbox_row where
  \<comment> \<open>a favorited mailbox created long before the clock of \<open>ex_env\<close>\<close>
  "ex_mailbox =
     \<lparr>mb_id = 1, address = ''keep@b.c'', local_part = ''keep'', mb_domain = ''b.c'',
      password_hash = None, created_at = 0, last_accessed_at = 0, is_pinned = 0,
      is_favorite = 1\<rparr>"

definition ex_stored_message :: message_row where
  "ex_stored_message =
     \<lparr>msg_id = 1, mailbox_id = 1, sender = ''x@y.z'', to_addrs = ''keep@b.c'',
      subject = ''s'', verification_code = None, preview_col = None, r2_bucket = ''mail-eml'',
      r2_object_key = []\<rparr>"

definition ex_sweep_world :: world where
  "ex_sweep_world =
     \<lparr>db = \<lparr>mailboxes = [ex_mailbox], messages = [ex_stored_message]\<rparr>, blobs = Map.empty,
      forwards = [], console = []\<rparr>"

section \<open>Properties of the Expiry Sweeper\<close>

lemma fold_r2_delete_db [simp]: "db (fold (r2_delete e) ks w) = db w"
  by (induction ks arbitrary: w) (simp_all add: r2_delete_def)

lemma scheduled_unavailable: "\<not> db_available e \<Longrightarrow> db (scheduled e w) = db w"
  by (simp add: scheduled_def)

lemma scheduled_mailboxes:
  "db_available e \<Longrightarrow>
   mailboxes (db (scheduled e w)) =
     filter (\<lambda>r. \<not> (expired (db_clock e) r \<and> is_pinned r = 0 \<and> is_favorite r = 0))
       (mailboxes (db w))"
  by (simp add: scheduled_def Let_def delete_mailboxes_def delete_messages_def)

lemma scheduled_messages:
  "db_available e \<Longrightarrow>
   messages (db (scheduled e w)) =
     filter (\<lambda>m. mailbox_id m \<notin> mb_id ` {r \<in> set (mailboxes (db w)). expired (db_clock e) r})
       (messages (db w))"
  by (simp add: scheduled_def Let_def delete_mailboxes_def delete_messages_def)

text \<open>
  Claim C2. A mailbox row whose \<open>is_pinned\<close> or \<open>is_favorite\<close> flag is set is still in
  the table after a run of the sweeper, whatever its \<open>created_at\<close> and whether or not
  the run reaches the datastore.
\<close>

theorem sweeper_keeps_flagged_mailboxes:
  assumes "r \<in> set (mailboxes (db w))"
    and "is_pinned r \<noteq> 0 \<or> is_favorite r \<noteq> 0"
  shows "r \<in> set (mailboxes (db (scheduled e w)))"
proof (cases "db_available e")
  case True
  with assms show ?thesis by (auto simp: scheduled_mailboxes)
next
  case False
  with assms show ?thesis by (simp add: scheduled_unavailable)
qed

text \<open>The sample mailbox is favorited and far older than the window; it survives.\<close>

theorem sweeper_keeps_flagged_mailboxes_witness:
  "ex_mailbox \<in> set (mailboxes (db ex_sweep_world)) \<and> is_favorite ex_mailbox = 1
   \<and> expired (db_clock ex_env) ex_mailbox
   \<and> ex_mailbox \<in> set (mailboxes (db (scheduled ex_env ex_sweep_world)))"
proof -
  have a: "ex_mailbox \<in> set (mailboxes (db ex_sweep_world))"
    by (simp add: ex_sweep_world_def)
  have b: "is_pinned ex_mailbox \<noteq> 0 \<or> is_favorite ex_mailbox \<noteq> 0"
    by (simp add: ex_mailbox_def)
  have c: "expired (db_clock ex_env) ex_mailbox"
    by (simp add: expired_def ex_env_def ex_mailbox_def EXPIRE_MINUTES_def)
  from sweeper_keeps_flagged_mailboxes [OF a b, of ex_env] a c show ?thesis
    by (simp add: ex_mailbox_def)
qed

text \<open>
  Claim C3, as the code has it. Step 3 deletes messages by the age of the owning mailbox
  alone; the flags are read in step 4 only. So for a favorited mailbox older than the
  window, a run that reaches the datastore keeps the mailbox row and leaves no message
  row owned by it.
\<close>

theorem sweeper_deletes_messages_of_favorite:
  assumes "db_available e"
    and "r \<in> set (mailboxes (db w))"
    and "is_favorite r \<noteq> 0"
    and "expired (db_clock e) r"
  shows "r \<in> set (mailboxes (db (scheduled e w)))
       \<and> owned_by r (messages (db (scheduled e w))) = []"
proof -
  have "r \<in> set (mailboxes (db (scheduled e w)))"
    using assms by (simp add: scheduled_mailboxes)
  moreover have "owned_by r (messages (db (scheduled e w))) = []"
    using assms by (auto simp: owned_by_def scheduled_messages filter_empty_conv)
  ultimately show ?thesis by simp
qed

theorem sweeper_deletes_messages_of_favorite_witness:
  "db_available ex_env \<and> ex_mailbox \<in> set (mailboxes (db ex_sweep_world))
   \<and> is_favorite ex_mailbox = 1 \<and> expired (db_clock ex_env) ex_mailbox
   \<and> ex_mailbox \<in> set (mailboxes (db (scheduled ex_env ex_sweep_world)))
   \<and> owned_by ex_mailbox (messages (db (scheduled ex_env ex_sweep_world))) = []"
proof -
  have a: "db_available ex_env" by (simp add: ex_env_def)
  have b: "ex_mailbox \<in> set (mailboxes (db ex_sweep_world))"
    by (simp add: ex_sweep_world_def)
  have c: "is_favorite ex_mailbox \<noteq> 0" by (simp add: ex_mailbox_def)
  have d: "expired (db_clock ex_env) ex_mailbox"
    by (simp add: expired_def ex_env_def ex_mailbox_def EXPIRE_MINUTES_def)
  from sweeper_deletes_messages_of_favorite [OF a b c d] a b d show ?thesis
    by (simp add: ex_mailbox_def)
qed

text \<open>
  Claim C3 as first stated (the messages of such a mailbox are left unchanged) fails:
  the sample mailbox is favorited and expired, it owns one message row before the sweep
  and none after it.
\<close>

theorem sweeper_favorite_messages_counterexample:
  "is_favorite ex_mailbox = 1 \<and> expired (db_clock ex_env) ex_mailbox
   \<and> owned_by ex_mailbox (messages (db ex_sweep_world)) = [ex_stored_message]
   \<and> owned_by ex_mailbox (messages (db (scheduled ex_env ex_sweep_world))) = []"
  by code_simp

section \<open>Properties of the Mailbox Provisioner\<close>

lemma js_or_Nil [simp]: "js_or s [] = s"
  by (simp add: js_or_def truthy_def)

lemma select_insert_mailbox:
  "select_mailbox_ids (insert_mailbox c a lp dm d) a =
     select_mailbox_ids d a @ [next_id (map mb_id (mailboxes d))]"
  by (simp add: select_mailbox_ids_def insert_mailbox_def)

lemma rows_for_insert_mailbox:
  "rows_for a (insert_mailbox c a lp dm d) =
     rows_for a d @ [\<lparr>mb_id = next_id (map mb_id (mailboxes d)), address = a, local_part = lp,
          mb_domain = dm, password_hash = None, created_at = c,
          last_accessed_at = c, is_pinned = 0, is_favorite = 0\<rparr>]"
  by (simp add: rows_for_def insert_mailbox_def)

lemma select_ids_rows_for: "select_mailbox_ids d a = map mb_id (rows_for a d)"
  by (simp add: select_mailbox_ids_def rows_for_def)

lemma find_or_create_found:
  "select_mailbox_ids d (toLowerCase a) = i # ids \<Longrightarrow> find_or_create c a d = (Some i, d)"
  by (simp add: find_or_create_def Let_def)

lemma find_or_create_created:
  assumes "select_mailbox_ids d (toLowerCase a) = []"
    and "opt_truthy (nth_piece (split_on (CHR ''@'') (toLowerCase a)) 0)"
    and "opt_truthy (nth_piece (split_on (CHR ''@'') (toLowerCase a)) 1)"
  shows "find_or_create c a d =
     (Some (next_id (map mb_id (mailboxes d))),
      insert_mailbox c (toLowerCase a)
        (opt_or (nth_piece (split_on (CHR ''@'') (toLowerCase a)) 0) [])
        (opt_or (nth_piece (split_on (CHR ''@'') (toLowerCase a)) 1) []) d)"
  using assms by (simp add: find_or_create_def Let_def select_insert_mailbox)

lemma find_or_create_unresolved:
  assumes "select_mailbox_ids d (toLowerCase a) = []"
    and "\<not> (opt_truthy (nth_piece (split_on (CHR ''@'') (toLowerCase a)) 0)
           \<and> opt_truthy (nth_piece (split_on (CHR ''@'') (toLowerCase a)) 1))"
  shows "find_or_create c a d = (None, d)"
  using assms by (auto simp: find_or_create_def Let_def)

lemma next_id_pos: "next_id ids \<noteq> 0"
  by (simp add: next_id_def)

lemma find_or_create_resolves_new:
  assumes "select_mailbox_ids d (toLowerCase a) = []"
    and "opt_truthy (nth_piece (split_on (CHR ''@'') (toLowerCase a)) 0)"
    and "opt_truthy (nth_piece (split_on (CHR ''@'') (toLowerCase a)) 1)"
  shows "id_truthy (fst (find_or_create c a d))"
  by (simp add: find_or_create_created [OF assms] id_truthy_def next_id_pos)

text \<open>
  Claim C4. Running the find-or-create step a second time on the datastore the first run
  left resolves the same identifier and changes nothing; an address that had at most one
  row still has at most one; and an address with a non-empty local part and domain does
  resolve. The two runs may read different clocks.
\<close>

theorem find_or_create_idempotent:
  "fst (find_or_create c2 a (snd (find_or_create c1 a d))) = fst (find_or_create c1 a d)
   \<and> snd (find_or_create c2 a (snd (find_or_create c1 a d))) = snd (find_or_create c1 a d)
   \<and> (length (rows_for (toLowerCase a) d) \<le> 1 \<longrightarrow>
        length (rows_for (toLowerCase a) (snd (find_or_create c1 a d))) \<le> 1)
   \<and> (opt_truthy (nth_piece (split_on (CHR ''@'') (toLowerCase a)) 0)
        \<and> opt_truthy (nth_piece (split_on (CHR ''@'') (toLowerCase a)) 1) \<longrightarrow>
        fst (find_or_create c1 a d) \<noteq> None
        \<and> length (rows_for (toLowerCase a) (snd (find_or_create c1 a d))) \<ge> 1)"
proof (cases "select_mailbox_ids d (toLowerCase a)")
  case (Cons i ids)
  then have "rows_for (toLowerCase a) d \<noteq> []"
    by (auto simp: select_ids_rows_for)
  with Cons show ?thesis
    by (simp add: find_or_create_found Suc_le_eq)
next
  case Nil
  then have none: "rows_for (toLowerCase a) d = []"
    by (simp add: select_ids_rows_for)
  show ?thesis
  proof (cases "opt_truthy (nth_piece (split_on (CHR ''@'') (toLowerCase a)) 0)
           \<and> opt_truthy (nth_piece (split_on (CHR ''@'') (toLowerCase a)) 1)")
    case True
    then have t0: "opt_truthy (nth_piece (split_on (CHR ''@'') (toLowerCase a)) 0)"
      and t1: "opt_truthy (nth_piece (split_on (CHR ''@'') (toLowerCase a)) 1)"
      by simp_all
    note created = find_or_create_created [OF Nil t0 t1]
    have again: "select_mailbox_ids (snd (find_or_create c1 a d)) (toLowerCase a)
        = [next_id (map mb_id (mailboxes d))]"
      by (simp add: created select_insert_mailbox Nil)
    show ?thesis
      using t0 t1
      by (simp add: find_or_create_found [OF again])
         (simp add: created rows_for_insert_mailbox none)
  next
    case False
    note unresolved = find_or_create_unresolved [OF Nil False]
    from False show ?thesis
      by (auto simp: unresolved none)
  qed
qed


text \<open>On the empty datastore the first run creates row 1 and the second finds it.\<close>

theorem find_or_create_idempotent_witness:
  "fst (find_or_create 5 ''a@b.c'' (db ex_world)) = Some 1
   \<and> fst (find_or_create 9 ''a@b.c'' (snd (find_or_create 5 ''a@b.c'' (db ex_world)))) = Some 1
   \<and> length (rows_for (toLowerCase ''a@b.c'') (db ex_world)) = 0
   \<and> length (rows_for (toLowerCase ''a@b.c'') (snd (find_or_create 5 ''a@b.c'' (db ex_world)))) = 1"
proof -
  have a: "fst (find_or_create 5 ''a@b.c'' (db ex_world)) = Some 1"
    by code_simp
  have b: "length (rows_for (toLowerCase ''a@b.c'') (db ex_world)) = 0"
    by code_simp
  have c: "opt_truthy (nth_piece (split_on (CHR ''@'') (toLowerCase ''a@b.c'')) 0)
        \<and> opt_truthy (nth_piece (split_on (CHR ''@'') (toLowerCase ''a@b.c'')) 1)"
    by code_simp
  from find_or_create_idempotent [of 9 "''a@b.c''" 5 "db ex_world"] a b c
  show ?thesis by (auto simp: le_Suc_eq)
qed

section \<open>Properties of the email handler\<close>

lemma forward_step_simps [simp]:
  "db (forward_step h msg w) = db w"
  "blobs (forward_step h msg w) = blobs w"
  "console (forward_step h msg w) = console w"
  "forwards (forward_step h msg w) =
     forwards w @ [forward_dispatch (getForwardTarget h (db w) (resolvedRecipientAddr h msg))
                     (localPart h msg)]"
  by (simp_all add: forward_step_def)

lemma archive_simps [simp]:
  "db (snd (archive e rb mb w)) = db w"
  "forwards (snd (archive e rb mb w)) = forwards w"
  "fst (archive e rb mb w) =
     object_key (now e) (key_id (randomUUID e) (date_now e) (random36 e)) mb"
  by (simp_all add: archive_def Let_def split: option.splits)

lemma archive_put_raises:
  "mail_eml e \<Longrightarrow> put_raises e \<Longrightarrow>
   snd (archive e (Some bytes) mb w) = w\<lparr>console := console w @ [R2PutFailed]\<rparr>"
  by (simp add: archive_def Let_def)

lemma find_or_create_messages [simp]:
  "messages (snd (find_or_create c a d)) = messages d"
  by (simp add: find_or_create_def Let_def insert_mailbox_def split: list.splits)

lemma email_try_fst:
  "fst (email_try h e msg w) =
     (if id_truthy (fst (find_or_create (db_clock e) (mailbox_of h msg) (db w))) then None
      else Some MailboxResolutionError)"
  by (simp add: email_try_def Let_def case_prod_beta)

lemma email_try_forwards:
  "forwards (snd (email_try h e msg w)) =
     forwards w @ [forward_dispatch (getForwardTarget h (db w) (resolvedRecipientAddr h msg))
                     (localPart h msg)]"
  by (simp add: email_try_def Let_def case_prod_beta)

lemma email_try_messages_unresolved:
  "\<not> id_truthy (fst (find_or_create (db_clock e) (mailbox_of h msg) (db w))) \<Longrightarrow>
   messages (db (snd (email_try h e msg w))) = messages (db w)"
  by (simp add: email_try_def Let_def case_prod_beta)

lemma email_try_messages_resolved:
  "id_truthy (fst (find_or_create (db_clock e) (mailbox_of h msg) (db w))) \<Longrightarrow>
   \<exists>row. messages (db (snd (email_try h e msg w))) = messages (db w) @ [row]
     \<and> Some (mailbox_id row) = fst (find_or_create (db_clock e) (mailbox_of h msg) (db w))
     \<and> r2_bucket row = ''mail-eml''"
  by (auto simp: email_try_def Let_def case_prod_beta insert_message_def id_truthy_def
      split: option.splits)

text \<open>The row that is recorded when the mailbox identifier resolves.\<close>

lemma email_try_recorded_row:
  assumes "fst (find_or_create (db_clock e) (mailbox_of h msg) (db w)) = Some i" and "i \<noteq> 0"
  shows "messages (db (snd (email_try h e msg w))) =
     messages (db w) @
       [\<lparr>msg_id = next_id (map msg_id (messages (db w))), mailbox_id = i,
         sender = extractEmail h (fromHeader msg), to_addrs = toAddrs msg,
         subject = subject_of msg,
         verification_code =
           null_if_empty
             (case extractVerificationCode h (subject_of msg) (fst (snd (extract_bodies h msg)))
                     (snd (snd (extract_bodies h msg))) of
                None \<Rightarrow> [] | Some c \<Rightarrow> c),
         preview_col =
           null_if_empty
             (preview (fst (snd (extract_bodies h msg))) (snd (snd (extract_bodies h msg)))),
         r2_bucket = ''mail-eml'',
         r2_object_key =
           object_key (now e) (key_id (randomUUID e) (date_now e) (random36 e))
             (mailbox_of h msg)\<rparr>]"
proof -
  have subj: "js_or (subject_of msg) no_subject = subject_of msg"
    by (auto simp: subject_of_def opt_or_def js_or_def truthy_def split: option.splits)
  show ?thesis
    using assms
    by (simp add: email_try_def Let_def case_prod_beta insert_message_def id_truthy_def subj)
qed

lemma email_try_put_raises:
  assumes "mail_eml e" and "put_raises e" and "msg_raw msg = Some bytes"
  shows "blobs (snd (email_try h e msg w)) = blobs w"
    and "console (snd (email_try h e msg w)) = console w @ [R2PutFailed]"
proof -
  have "fst (extract_bodies h msg) = Some bytes"
    using assms(3) by (simp add: extract_bodies_def split: option.splits prod.splits)
  then show "blobs (snd (email_try h e msg w)) = blobs w"
    and "console (snd (email_try h e msg w)) = console w @ [R2PutFailed]"
    using assms(1,2)
    by (simp_all add: email_try_def Let_def case_prod_beta archive_put_raises)
qed

lemma email_available:
  "db_available e \<Longrightarrow>
   db (email h e msg w) = db (snd (email_try h e msg w))
   \<and> forwards (email h e msg w) = forwards (snd (email_try h e msg w))
   \<and> blobs (email h e msg w) = blobs (snd (email_try h e msg w))
   \<and> console (email h e msg w) =
       console (snd (email_try h e msg w)) @
         (case fst (email_try h e msg w) of None \<Rightarrow> [] | Some err \<Rightarrow> [EmailHandlingError err])"
  by (cases "email_try h e msg w") (simp add: email_def split: option.splits)

lemma email_unavailable:
  "\<not> db_available e \<Longrightarrow> db (email h e msg w) = db w \<and> forwards (email h e msg w) = forwards w"
  by (simp add: email_def)

lemma mailbox_of_eq: "mailbox_of h msg = resolvedRecipientAddr h msg"
  by (simp add: mailbox_of_def resolvedRecipientAddr_def resolvedRecipient_def js_or_def truthy_def)

lemma split_on_no_delim: "d \<notin> set s \<Longrightarrow> split_on d s = [s]"
  by (induction s) auto

lemma of_char_to_lower:
  "(of_char (to_lower_char c) :: nat) =
     (if (65 \<le> (of_char c :: nat) \<and> (of_char c :: nat) \<le> 90)
         \<or> (192 \<le> (of_char c :: nat) \<and> (of_char c :: nat) \<le> 222 \<and> (of_char c :: nat) \<noteq> 215)
      then of_char c + 32 else of_char c)"
  by (auto simp: to_lower_char_def Let_def)

lemma to_lower_char_at: "(to_lower_char c = CHR ''@'') = (c = CHR ''@'')"
proof -
  have "(to_lower_char c = CHR ''@'') = ((of_char (to_lower_char c) :: nat) = of_char (CHR ''@''))"
    by (simp only: of_char_eq_iff)
  also have "\<dots> = ((of_char c :: nat) = of_char (CHR ''@''))"
    by (auto simp: of_char_to_lower)
  also have "\<dots> = (c = CHR ''@'')"
    by (simp only: of_char_eq_iff)
  finally show ?thesis .
qed

lemma at_toLowerCase: "(CHR ''@'' \<in> set (toLowerCase s)) = (CHR ''@'' \<in> set s)"
proof -
  have "\<And>c. (CHR ''@'' = to_lower_char c) = (c = CHR ''@'')"
    using to_lower_char_at by (auto dest: sym)
  then show ?thesis
    by (auto simp: toLowerCase_def image_iff)
qed

lemma find_or_create_no_at:
  assumes "CHR ''@'' \<notin> set a" and "select_mailbox_ids d (toLowerCase a) = []"
  shows "find_or_create c a d = (None, d)"
proof -
  have "split_on (CHR ''@'') (toLowerCase a) = [toLowerCase a]"
    using assms(1) by (simp add: split_on_no_delim at_toLowerCase)
  then have "\<not> (opt_truthy (nth_piece (split_on (CHR ''@'') (toLowerCase a)) 0)
           \<and> opt_truthy (nth_piece (split_on (CHR ''@'') (toLowerCase a)) 1))"
    by (simp add: opt_truthy_def)
  from find_or_create_unresolved [OF assms(2) this] show ?thesis .
qed

lemma email_try_no_at:
  assumes "CHR ''@'' \<notin> set (mailbox_of h msg)"
    and "rows_for (toLowerCase (mailbox_of h msg)) (db w) = []"
  shows "\<not> id_truthy (fst (find_or_create (db_clock e) (mailbox_of h msg) (db w)))"
proof -
  have sel: "select_mailbox_ids (db w) (toLowerCase (mailbox_of h msg)) = []"
    using assms(2) by (simp add: select_ids_rows_for)
  show ?thesis
    by (simp add: find_or_create_no_at [OF assms(1) sel] id_truthy_def)
qed

lemma email_messages_unresolved:
  assumes "\<not> id_truthy (fst (find_or_create (db_clock e) (mailbox_of h msg) (db w)))"
  shows "messages (db (email h e msg w)) = messages (db w)"
proof (cases "db_available e")
  case True
  then show ?thesis
    using email_try_messages_unresolved [OF assms] by (simp add: email_available)
next
  case False
  then show ?thesis by (simp add: email_unavailable)
qed

text \<open>
  Claim C5. When the mailbox address of a message contains no \<open>@\<close> and no mailbox row is
  stored under it, the \<^verbatim>\<open>try\<close> block of the handler raises the mailbox-resolution
  error and the handler inserts no message row; when the datastore is reachable, that
  error is the last thing the handler logs.
\<close>

theorem email_no_at_is_not_recorded:
  assumes "CHR ''@'' \<notin> set (mailbox_of h msg)"
    and "rows_for (toLowerCase (mailbox_of h msg)) (db w) = []"
  shows "fst (email_try h e msg w) = Some MailboxResolutionError
       \<and> messages (db (snd (email_try h e msg w))) = messages (db w)
       \<and> messages (db (email h e msg w)) = messages (db w)
       \<and> (db_available e \<longrightarrow>
            console (email h e msg w) =
              console (snd (email_try h e msg w)) @ [EmailHandlingError MailboxResolutionError])"
proof -
  note unres = email_try_no_at [OF assms, of e]
  have raised: "fst (email_try h e msg w) = Some MailboxResolutionError"
    using unres by (simp add: email_try_fst)
  have kept: "messages (db (snd (email_try h e msg w))) = messages (db w)"
    using unres by (rule email_try_messages_unresolved)
  have handler: "messages (db (email h e msg w)) = messages (db w)"
    using unres by (rule email_messages_unresolved)
  have logged: "db_available e \<longrightarrow>
      console (email h e msg w) =
        console (snd (email_try h e msg w)) @ [EmailHandlingError MailboxResolutionError]"
    using raised by (simp add: email_available)
  from raised kept handler logged show ?thesis by simp
qed

text \<open>
  The sample message addressed to \<open>nobody\<close>, on the empty datastore.
\<close>

theorem email_no_at_is_not_recorded_witness:
  "CHR ''@'' \<notin> set (mailbox_of ex_helpers ex_message_no_at)
   \<and> rows_for (toLowerCase (mailbox_of ex_helpers ex_message_no_at)) (db ex_world) = []
   \<and> db_available ex_env
   \<and> fst (email_try ex_helpers ex_env ex_message_no_at ex_world) = Some MailboxResolutionError
   \<and> messages (db (email ex_helpers ex_env ex_message_no_at ex_world)) = []
   \<and> console (email ex_helpers ex_env ex_message_no_at ex_world)
       = [R2PutFailed, EmailHandlingError MailboxResolutionError]"
proof -
  have a: "CHR ''@'' \<notin> set (mailbox_of ex_helpers ex_message_no_at)"
    by code_simp
  have b: "rows_for (toLowerCase (mailbox_of ex_helpers ex_message_no_at)) (db ex_world) = []"
    by code_simp
  have c: "db_available ex_env" by (simp add: ex_env_def)
  have d: "messages (db ex_world) = []" by (simp add: ex_world_def)
  have e: "console (snd (email_try ex_helpers ex_env ex_message_no_at ex_world)) = [R2PutFailed]"
    by code_simp
  from email_no_at_is_not_recorded [OF a b, of ex_env] a b c d e show ?thesis by simp
qed

text \<open>
  Claim C7. The handler's \<^verbatim>\<open>try\<close> block makes exactly one forwarding call: the
  mailbox-specific one when the forward-target lookup returns a non-empty target, the
  local-part one otherwise. Whenever the handler has obtained its datastore connection,
  that call is the only one the invocation adds.
\<close>

theorem email_dispatches_one_forward:
  "forwards (snd (email_try h e msg w)) =
     forwards w @
       [case getForwardTarget h (db w) (resolvedRecipientAddr h msg) of
          None \<Rightarrow> ForwardByLocalPart (localPart h msg)
        | Some t \<Rightarrow> if t \<noteq> [] then ForwardByMailboxConfig t
                    else ForwardByLocalPart (localPart h msg)]
   \<and> (db_available e \<longrightarrow> forwards (email h e msg w) = forwards (snd (email_try h e msg w)))"
  by (auto simp: email_try_forwards email_available forward_dispatch_def opt_truthy_def
      opt_or_def js_or_def truthy_def split: option.splits)

text \<open>
  One sample message has a forward target and one has none.
\<close>

theorem email_dispatches_one_forward_witness:
  "db_available ex_env
   \<and> getForwardTarget ex_helpers (db ex_world) (resolvedRecipientAddr ex_helpers ex_message_fwd)
       = Some ''owner@example.org''
   \<and> forwards (email ex_helpers ex_env ex_message_fwd ex_world)
       = [ForwardByMailboxConfig ''owner@example.org'']
   \<and> getForwardTarget ex_helpers (db ex_world) (resolvedRecipientAddr ex_helpers ex_message) = None
   \<and> forwards (email ex_helpers ex_env ex_message ex_world) = [ForwardByLocalPart ''a'']"
proof -
  have a: "db_available ex_env" by (simp add: ex_env_def)
  have b: "getForwardTarget ex_helpers (db ex_world) (resolvedRecipientAddr ex_helpers ex_message_fwd)
       = Some ''owner@example.org''"
    by code_simp
  have c: "getForwardTarget ex_helpers (db ex_world) (resolvedRecipientAddr ex_helpers ex_message) = None"
    by code_simp
  have d: "localPart ex_helpers ex_message = ''a''" by code_simp
  have e: "forwards ex_world = []" by (simp add: ex_world_def)
  from email_dispatches_one_forward [of ex_helpers ex_env ex_message_fwd ex_world]
    email_dispatches_one_forward [of ex_helpers ex_env ex_message ex_world] a b c d e
  show ?thesis by simp
qed


text \<open>
  Claim C10. For a message whose recipient address contains no \<open>@\<close>, exactly one
  forwarding call has been made by the time the \<^verbatim>\<open>try\<close> block ends; and when no
  mailbox row is stored under that address, the block ends with the mailbox-resolution
  error and no message row is written.
\<close>

theorem email_forwards_before_resolution:
  assumes "CHR ''@'' \<notin> set (resolvedRecipientAddr h msg)"
  shows "(\<exists>d. forwards (snd (email_try h e msg w)) = forwards w @ [d]
            \<and> (db_available e \<longrightarrow> forwards (email h e msg w) = forwards w @ [d]))
       \<and> (rows_for (toLowerCase (resolvedRecipientAddr h msg)) (db w) = [] \<longrightarrow>
            fst (email_try h e msg w) = Some MailboxResolutionError
            \<and> messages (db (snd (email_try h e msg w))) = messages (db w)
            \<and> messages (db (email h e msg w)) = messages (db w))"
proof -
  have one: "\<exists>d. forwards (snd (email_try h e msg w)) = forwards w @ [d]
            \<and> (db_available e \<longrightarrow> forwards (email h e msg w) = forwards w @ [d])"
    by (simp add: email_try_forwards email_available)
  have abort: "fst (email_try h e msg w) = Some MailboxResolutionError
            \<and> messages (db (snd (email_try h e msg w))) = messages (db w)
            \<and> messages (db (email h e msg w)) = messages (db w)"
    if none: "rows_for (toLowerCase (resolvedRecipientAddr h msg)) (db w) = []"
  proof -
    have a: "CHR ''@'' \<notin> set (mailbox_of h msg)"
      using assms by (simp add: mailbox_of_eq)
    have b: "rows_for (toLowerCase (mailbox_of h msg)) (db w) = []"
      using none by (simp add: mailbox_of_eq)
    note unres = email_try_no_at [OF a b, of e]
    show ?thesis
      using unres email_try_messages_unresolved [OF unres] email_messages_unresolved [OF unres]
      by (simp add: email_try_fst)
  qed
  from one abort show ?thesis by blast
qed

text \<open>
  The sample message addressed to \<open>nobody\<close> is forwarded by local part and not recorded.
\<close>

theorem email_forwards_before_resolution_witness:
  "CHR ''@'' \<notin> set (resolvedRecipientAddr ex_helpers ex_message_no_at)
   \<and> rows_for (toLowerCase (resolvedRecipientAddr ex_helpers ex_message_no_at)) (db ex_world) = []
   \<and> db_available ex_env
   \<and> forwards (email ex_helpers ex_env ex_message_no_at ex_world) = [ForwardByLocalPart ''nobody'']
   \<and> fst (email_try ex_helpers ex_env ex_message_no_at ex_world) = Some MailboxResolutionError
   \<and> messages (db (email ex_helpers ex_env ex_message_no_at ex_world)) = []"
proof -
  have a: "CHR ''@'' \<notin> set (resolvedRecipientAddr ex_helpers ex_message_no_at)"
    by code_simp
  have b: "rows_for (toLowerCase (resolvedRecipientAddr ex_helpers ex_message_no_at)) (db ex_world) = []"
    by code_simp
  have c: "db_available ex_env" by (simp add: ex_env_def)
  have d: "messages (db ex_world) = []" by (simp add: ex_world_def)
  have f: "forwards (snd (email_try ex_helpers ex_env ex_message_no_at ex_world))
      = [ForwardByLocalPart ''nobody'']"
    by code_simp
  from email_forwards_before_resolution [OF a, of ex_env ex_world] a b c d f
  show ?thesis by auto
qed

text \<open>
  Claim C1, as the code has it. When \<^verbatim>\<open>put\<close> is called and raises, the failure is
  logged, nothing is stored in the blob store, and ingestion goes on: if the mailbox
  identifier resolves, exactly one message row is inserted, owned by that mailbox.
\<close>

theorem email_put_failure_still_records:
  assumes "db_available e" and "mail_eml e" and "put_raises e"
    and "msg_raw msg = Some bytes"
    and "id_truthy (fst (find_or_create (db_clock e) (mailbox_of h msg) (db w)))"
  shows "(\<exists>row. messages (db (email h e msg w)) = messages (db w) @ [row]
            \<and> Some (mailbox_id row) = fst (find_or_create (db_clock e) (mailbox_of h msg) (db w))
            \<and> r2_bucket row = ''mail-eml'')
       \<and> blobs (email h e msg w) = blobs w
       \<and> console (email h e msg w) = console w @ [R2PutFailed]"
proof -
  have none: "fst (email_try h e msg w) = None"
    using assms(5) by (simp add: email_try_fst)
  from email_try_messages_resolved [OF assms(5)]
  have rows: "\<exists>row. messages (db (email h e msg w)) = messages (db w) @ [row]
            \<and> Some (mailbox_id row) = fst (find_or_create (db_clock e) (mailbox_of h msg) (db w))
            \<and> r2_bucket row = ''mail-eml''"
    using assms(1) by (simp add: email_available)
  have "blobs (email h e msg w) = blobs w"
    using assms(1) email_try_put_raises(1) [OF assms(2,3,4)] by (simp add: email_available)
  moreover have "console (email h e msg w) = console w @ [R2PutFailed]"
    using assms(1) none email_try_put_raises(2) [OF assms(2,3,4)] by (simp add: email_available)
  ultimately show ?thesis using rows by simp
qed

text \<open>
  The sample message to \<open>A@b.c\<close> with a blob store whose \<^verbatim>\<open>put\<close> raises.
\<close>

theorem email_put_failure_still_records_witness:
  "db_available ex_env \<and> mail_eml ex_env \<and> put_raises ex_env \<and> msg_raw ex_message = Some ''hi''
   \<and> fst (find_or_create (db_clock ex_env) (mailbox_of ex_helpers ex_message) (db ex_world)) = Some 1
   \<and> map mailbox_id (messages (db (email ex_helpers ex_env ex_message ex_world))) = [1]
   \<and> console (email ex_helpers ex_env ex_message ex_world) = [R2PutFailed]"
proof -
  have a: "db_available ex_env" and b: "mail_eml ex_env" and c: "put_raises ex_env"
    by (simp_all add: ex_env_def)
  have d: "msg_raw ex_message = Some ''hi''" by (simp add: ex_message_def)
  have f: "fst (find_or_create (db_clock ex_env) (mailbox_of ex_helpers ex_message) (db ex_world)) = Some 1"
    by code_simp
  have g: "id_truthy (fst (find_or_create (db_clock ex_env) (mailbox_of ex_helpers ex_message) (db ex_world)))"
    by (simp add: f id_truthy_def)
  have i: "messages (db ex_world) = []" "console ex_world = []" by (simp_all add: ex_world_def)
  from email_put_failure_still_records [OF a b c d g] a b c d f i
  show ?thesis by auto
qed

text \<open>
  Claim C1 as first stated fails twice. With \<^verbatim>\<open>put\<close> raising, the row recorded for
  the sample message carries the object key that was built before the call, not the empty
  string; and the sample message addressed to \<open>nobody\<close> gets no row at all.
\<close>

theorem email_put_failure_counterexample:
  "put_raises ex_env
   \<and> console (email ex_helpers ex_env ex_message ex_world) = [R2PutFailed]
   \<and> map r2_object_key (messages (db (email ex_helpers ex_env ex_message ex_world)))
       = [''2024/01/05/a@b.c/070809-u1.eml'']
   \<and> console (email ex_helpers ex_env ex_message_no_at ex_world)
       = [R2PutFailed, EmailHandlingError MailboxResolutionError]
   \<and> messages (db (email ex_helpers ex_env ex_message_no_at ex_world)) = []"
  by code_simp

section \<open>Properties of the object key\<close>

lemma string_of_nat_lt10: "n < 10 \<Longrightarrow> string_of_nat n = [digit_char n]"
  by (simp add: string_of_nat.simps)

lemma string_of_nat_ge10:
  "\<not> n < 10 \<Longrightarrow> string_of_nat n = string_of_nat (n div 10) @ [digit_char (n mod 10)]"
  by (subst string_of_nat.simps) simp

lemma string_of_nat_lt100:
  "10 \<le> n \<Longrightarrow> n < 100 \<Longrightarrow> string_of_nat n = [digit_char (n div 10), digit_char (n mod 10)]"
  by (simp add: string_of_nat_ge10 string_of_nat_lt10)

lemma digit_char_0: "digit_char 0 = CHR ''0''"
  by code_simp

lemma padStart2_two_digits: "n < 100 \<Longrightarrow> padStart2 (string_of_nat n) = spec_two_digits n"
  by (cases "n < 10")
     (simp_all add: padStart2_def string_of_nat_lt10 string_of_nat_lt100 spec_two_digits_def
        digit_char_0)

lemma length_string_of_nat_year:
  assumes "1000 \<le> n" and "n \<le> 9999"
  shows "length (string_of_nat n) = 4"
proof -
  have big: "\<not> n < 10" "\<not> n div 10 < 10"
    using assms by simp_all
  have "10 \<le> n div 10 div 10" and "n div 10 div 10 < 100"
    using assms by simp_all
  then have "length (string_of_nat (n div 10 div 10)) = 2"
    by (simp add: string_of_nat_lt100)
  then show ?thesis
    by (simp add: string_of_nat_ge10 [OF big(1)] string_of_nat_ge10 [OF big(2)])
qed

lemma is_digit_digit_char: "n < 10 \<Longrightarrow> is_digit (digit_char n)"
  by (simp add: is_digit_def digit_char_def)

lemma string_of_nat_digits: "list_all is_digit (string_of_nat n)"
proof (induction n rule: string_of_nat.induct)
  case (1 n)
  show ?case
  proof (cases "n < 10")
    case True
    then show ?thesis by (simp add: string_of_nat_lt10 is_digit_digit_char)
  next
    case False
    with 1 show ?thesis by (simp add: string_of_nat_ge10 is_digit_digit_char)
  qed
qed

lemma spec_two_digits_digits: "n < 100 \<Longrightarrow> list_all is_digit (spec_two_digits n)"
  by (simp add: spec_two_digits_def is_digit_digit_char)

lemma replace_unsafe_map:
  "replace_unsafe s = map (\<lambda>c. if key_char_ok c then c else CHR ''_'') s"
  by (induction s) auto

lemma safe_mailbox_spec: "safe_mailbox mailbox = spec_sanitize mailbox"
  by (simp add: safe_mailbox_def spec_sanitize_def replace_unsafe_map toLowerCase_def js_or_def
      truthy_def)

lemma spec_sanitize_ok: "list_all key_char_ok (spec_sanitize mailbox)"
  by (auto simp: spec_sanitize_def key_char_ok_def list_all_iff)

lemma object_key_eq:
  assumes "valid_utc t"
  shows "object_key t kid mailbox =
     string_of_nat (getUTCFullYear t) @ ''/'' @ spec_two_digits (getUTCMonth t + 1) @ ''/''
       @ spec_two_digits (getUTCDate t) @ ''/'' @ spec_sanitize mailbox @ ''/''
       @ spec_two_digits (getUTCHours t) @ spec_two_digits (getUTCMinutes t)
       @ spec_two_digits (getUTCSeconds t) @ ''-'' @ kid @ ''.eml''"
proof -
  from assms have "getUTCMonth t + 1 < 100" "getUTCDate t < 100" "getUTCHours t < 100"
    "getUTCMinutes t < 100" "getUTCSeconds t < 100"
    by (simp_all add: valid_utc_def)
  then show ?thesis
    by (simp add: object_key_def Let_def padStart2_two_digits safe_mailbox_spec)
qed

text \<open>
  Claim C6. The object key that the archiver builds is the year, the two-digit month
  (counted from 1) and day, the sanitized mailbox, the two-digit hours, minutes and
  seconds, a hyphen, the unique id and \<^verbatim>\<open>.eml\<close>, separated by slashes as in
  \<^verbatim>\<open>YYYY/MM/DD/mailbox/HHMMSS-id.eml\<close>. All date and time components are decimal
  digits read from the UTC getters; the year has four of them for every year from 1000
  to 9999. The sanitized mailbox is the lowercased mailbox with every character outside
  \<^verbatim>\<open>[a-z0-9@._-]\<close> replaced by an underscore, and \<^verbatim>\<open>unknown\<close> for the empty mailbox.
\<close>

theorem archive_object_key_form:
  assumes "valid_utc (now e)"
  shows "fst (archive e rawBuffer mailbox w) =
       string_of_nat (getUTCFullYear (now e)) @ ''/''
       @ spec_two_digits (getUTCMonth (now e) + 1) @ ''/''
       @ spec_two_digits (getUTCDate (now e)) @ ''/'' @ spec_sanitize mailbox @ ''/''
       @ spec_two_digits (getUTCHours (now e)) @ spec_two_digits (getUTCMinutes (now e))
       @ spec_two_digits (getUTCSeconds (now e)) @ ''-''
       @ key_id (randomUUID e) (date_now e) (random36 e) @ ''.eml''
     \<and> list_all is_digit (string_of_nat (getUTCFullYear (now e)))
     \<and> (1000 \<le> getUTCFullYear (now e) \<and> getUTCFullYear (now e) \<le> 9999 \<longrightarrow>
          length (string_of_nat (getUTCFullYear (now e))) = 4)
     \<and> list_all is_digit
          (spec_two_digits (getUTCMonth (now e) + 1) @ spec_two_digits (getUTCDate (now e))
           @ spec_two_digits (getUTCHours (now e)) @ spec_two_digits (getUTCMinutes (now e))
           @ spec_two_digits (getUTCSeconds (now e)))
     \<and> list_all key_char_ok (spec_sanitize mailbox)
     \<and> (mailbox = [] \<longrightarrow> spec_sanitize mailbox = ''unknown'')"
proof -
  from assms have small: "getUTCMonth (now e) + 1 < 100" "getUTCDate (now e) < 100"
    "getUTCHours (now e) < 100" "getUTCMinutes (now e) < 100" "getUTCSeconds (now e) < 100"
    by (simp_all add: valid_utc_def)
  have key: "fst (archive e rawBuffer mailbox w) =
      object_key (now e) (key_id (randomUUID e) (date_now e) (random36 e)) mailbox"
    by simp
  have unknown: "spec_sanitize [] = ''unknown''"
    by code_simp
  show ?thesis
    unfolding key object_key_eq [OF assms]
    using small unknown
    by (simp add: string_of_nat_digits length_string_of_nat_year spec_two_digits_digits
        spec_sanitize_ok)
qed

text \<open>
  The key built on 5 January 2024 at 07:08:09 UTC for a mailbox with a space and capitals.
\<close>

theorem archive_object_key_form_witness:
  "valid_utc (now ex_env)
   \<and> fst (archive ex_env (Some ''hi'') ''Foo Bar@Example.COM'' ex_world)
       = ''2024/01/05/foo_bar@example.com/070809-u1.eml''
   \<and> spec_sanitize ''Foo Bar@Example.COM'' = ''foo_bar@example.com''
   \<and> length (string_of_nat (getUTCFullYear (now ex_env))) = 4"
proof -
  have a: "valid_utc (now ex_env)" by code_simp
  have b: "fst (archive ex_env (Some ''hi'') ''Foo Bar@Example.COM'' ex_world)
       = ''2024/01/05/foo_bar@example.com/070809-u1.eml''"
    by code_simp
  have c: "spec_sanitize ''Foo Bar@Example.COM'' = ''foo_bar@example.com''" by code_simp
  have d: "1000 \<le> getUTCFullYear (now ex_env) \<and> getUTCFullYear (now ex_env) \<le> 9999"
    by code_simp
  from archive_object_key_form [OF a, of "Some ''hi''" "''Foo Bar@Example.COM''" ex_world] a b c d
  show ?thesis by simp
qed

section \<open>Properties of the preview\<close>

lemma is_space_blank [simp]: "is_space (CHR '' '')"
  by code_simp

lemma single_spaced_Cons:
  "single_spaced (c # cs) =
     ((is_space c \<longrightarrow> c = CHR '' '' \<and> (cs = [] \<or> \<not> is_space (hd cs))) \<and> single_spaced cs)"
  by (cases cs) auto

lemma single_spaced_tl: "single_spaced (c # cs) \<Longrightarrow> single_spaced cs"
  by (simp add: single_spaced_Cons)

lemma single_spaced_drop: "single_spaced s \<Longrightarrow> single_spaced (drop n s)"
proof (induction n arbitrary: s)
  case 0
  then show ?case by simp
next
  case (Suc n)
  then show ?case by (cases s) (auto dest: single_spaced_tl)
qed

lemma single_spaced_take: "single_spaced s \<Longrightarrow> single_spaced (take n s)"
proof (induction s arbitrary: n)
  case Nil
  then show ?case by simp
next
  case (Cons c cs)
  show ?case
  proof (cases n)
    case 0
    then show ?thesis by simp
  next
    case (Suc k)
    have tail: "single_spaced (take k cs)"
      using Cons by (simp add: single_spaced_Cons)
    have "take k cs = [] \<or> \<not> is_space (hd (take k cs))" if "is_space c"
    proof (cases "take k cs = []")
      case True
      then show ?thesis by simp
    next
      case False
      then have "cs \<noteq> []" and "k \<noteq> 0" by auto
      then have "hd (take k cs) = hd cs" by (cases cs; cases k) auto
      with Cons.prems that \<open>cs \<noteq> []\<close> show ?thesis
        by (simp add: single_spaced_Cons)
    qed
    with Cons.prems tail Suc show ?thesis
      by (auto simp: single_spaced_Cons)
  qed
qed

lemma collapse_ws_head:
  "s \<noteq> [] \<Longrightarrow> \<not> is_space (hd s) \<Longrightarrow> collapse_ws s \<noteq> [] \<and> hd (collapse_ws s) = hd s"
  by (cases s) auto

lemma dropWhile_head: "dropWhile P s \<noteq> [] \<Longrightarrow> \<not> P (hd (dropWhile P s))"
  by (simp add: hd_dropWhile)

lemma single_spaced_collapse_ws: "single_spaced (collapse_ws s)"
proof (induction s rule: collapse_ws.induct)
  case 1
  then show ?case by simp
next
  case (2 c cs)
  show ?case
  proof (cases "is_space c")
    case True
    let ?rest = "dropWhile is_space cs"
    have "collapse_ws ?rest = [] \<or> \<not> is_space (hd (collapse_ws ?rest))"
    proof (cases "?rest = []")
      case True
      then have "collapse_ws ?rest = []" by (metis collapse_ws.simps(1))
      then show ?thesis by simp
    next
      case False
      then have "\<not> is_space (hd ?rest)" by (rule dropWhile_head)
      with False show ?thesis using collapse_ws_head [of ?rest] by simp
    qed
    with True 2 show ?thesis by (simp add: single_spaced_Cons)
  next
    case False
    with 2 show ?thesis by (simp add: single_spaced_Cons)
  qed
qed

lemma trim_take_drop:
  "trim s = take (length (trim s)) (drop (length (takeWhile is_space s)) s)"
proof -
  let ?t = "dropWhile is_space s"
  have "rev (dropWhile is_space (rev ?t)) = take (length (rev (dropWhile is_space (rev ?t)))) ?t"
  proof -
    have "dropWhile is_space (rev ?t) = drop (length (takeWhile is_space (rev ?t))) (rev ?t)"
      by (rule dropWhile_eq_drop)
    then have "rev (dropWhile is_space (rev ?t)) =
        take (length ?t - length (takeWhile is_space (rev ?t))) ?t"
      by (simp add: rev_drop)
    then show ?thesis by simp
  qed
  then show ?thesis by (simp add: trim_def dropWhile_eq_drop)
qed

lemma single_spaced_trim: "single_spaced s \<Longrightarrow> single_spaced (trim s)"
  by (subst trim_take_drop) (simp add: single_spaced_take single_spaced_drop)

lemma trim_head: "trim s \<noteq> [] \<Longrightarrow> \<not> is_space (hd (trim s)) \<and> \<not> is_space (last (trim s))"
proof -
  assume ne: "trim s \<noteq> []"
  let ?t = "dropWhile is_space s"
  let ?u = "dropWhile is_space (rev ?t)"
  from ne have u: "?u \<noteq> []" by (simp add: trim_def)
  then have t: "?t \<noteq> []" by (metis dropWhile.simps(1) rev.simps(1))
  have "last (trim s) = hd ?u"
    using u by (simp add: trim_def last_rev)
  moreover have "\<not> is_space (hd ?u)" using u by (rule dropWhile_head)
  moreover have "hd (trim s) = hd ?t"
  proof -
    have "trim s = take (length (trim s)) ?t"
      using trim_take_drop [of s] by (simp add: dropWhile_eq_drop)
    then have "hd (trim s) = hd (take (length (trim s)) ?t)" by simp
    also have "\<dots> = hd ?t" using ne by (simp add: hd_take)
    finally show ?thesis .
  qed
  moreover have "\<not> is_space (hd ?t)" using t by (rule dropWhile_head)
  ultimately show ?thesis by simp
qed

lemma strip_tags_Cons:
  "strip_tags (c # cs) =
     (if tag_at c cs then CHR '' '' # strip_tags (tl (dropWhile (\<lambda>x. x \<noteq> CHR ''>'') cs))
      else c # strip_tags cs)"
  by (simp only: strip_tags.simps tag_at_def)

lemma has_tag_Cons: "has_tag (c # cs) = (tag_at c cs \<or> has_tag cs)"
  by simp

lemma strip_tags_induct [case_names Nil tag skip]:
  assumes "P []"
    and "\<And>c cs. tag_at c cs \<Longrightarrow> P (tl (dropWhile (\<lambda>x. x \<noteq> CHR ''>'') cs)) \<Longrightarrow> P (c # cs)"
    and "\<And>c cs. \<not> tag_at c cs \<Longrightarrow> P cs \<Longrightarrow> P (c # cs)"
  shows "P s"
proof (induction s rule: strip_tags.induct)
  case 1
  show ?case by (rule assms(1))
next
  case (2 c cs)
  show ?case
  proof (cases "tag_at c cs")
    case True
    then have "P (tl (dropWhile (\<lambda>x. x \<noteq> CHR ''>'') cs))"
      using 2(1) unfolding tag_at_def by blast
    with True show ?thesis by (rule assms(2))
  next
    case False
    then have "P cs" using 2(2) unfolding tag_at_def by blast
    with False show ?thesis by (rule assms(3))
  qed
qed

lemma set_tl_subset: "set (tl xs) \<subseteq> set xs"
  by (cases xs) auto

lemma set_tl_dropWhile: "set (tl (dropWhile P xs)) \<subseteq> set xs"
  using set_tl_subset [of "dropWhile P xs"] by (auto dest: set_dropWhileD)

lemma strip_tags_set: "set (strip_tags s) \<subseteq> insert (CHR '' '') (set s)"
proof (induction s rule: strip_tags_induct)
  case Nil
  show ?case by simp
next
  case (tag c cs)
  then show ?case
    using set_tl_dropWhile [of "\<lambda>x. x \<noteq> CHR ''>''" cs]
    by (simp only: strip_tags_Cons if_True) auto
next
  case (skip c cs)
  then show ?case
    by (simp only: strip_tags_Cons if_False) auto
qed

lemma tag_at_strip_tags: "\<not> tag_at c cs \<Longrightarrow> \<not> tag_at c (strip_tags cs)"
proof
  assume no: "\<not> tag_at c cs" and yes: "tag_at c (strip_tags cs)"
  from yes have c: "c = CHR ''<''"
    and t: "takeWhile (\<lambda>x. x \<noteq> CHR ''>'') (strip_tags cs) \<noteq> []"
    and d: "dropWhile (\<lambda>x. x \<noteq> CHR ''>'') (strip_tags cs) \<noteq> []"
    unfolding tag_at_def by blast+
  from no c consider "takeWhile (\<lambda>x. x \<noteq> CHR ''>'') cs = []"
    | "dropWhile (\<lambda>x. x \<noteq> CHR ''>'') cs = []"
    unfolding tag_at_def by blast
  then show False
  proof cases
    case 1
    show False
    proof (cases cs)
      case Nil
      with t show False by simp
    next
      case (Cons x xs)
      with 1 have x: "x = CHR ''>''" by (simp split: if_splits)
      then have "\<not> tag_at x xs" by (simp add: tag_at_def)
      then have "strip_tags cs = x # strip_tags xs"
        unfolding Cons by (simp only: strip_tags_Cons if_False)
      with t x show False by simp
    qed
  next
    case 2
    then have "CHR ''>'' \<notin> set cs"
      unfolding dropWhile_eq_Nil_conv by blast
    then have "CHR ''>'' \<notin> set (strip_tags cs)"
      using strip_tags_set [of cs] by auto
    then have "dropWhile (\<lambda>x. x \<noteq> CHR ''>'') (strip_tags cs) = []"
      unfolding dropWhile_eq_Nil_conv by blast
    with d show False by simp
  qed
qed

lemma no_tag_strip_tags: "\<not> has_tag (strip_tags s)"
proof (induction s rule: strip_tags_induct)
  case Nil
  show ?case by simp
next
  case (tag c cs)
  have "\<not> tag_at (CHR '' '') (strip_tags (tl (dropWhile (\<lambda>x. x \<noteq> CHR ''>'') cs)))"
    by (simp add: tag_at_def)
  with tag show ?case
    by (simp only: strip_tags_Cons if_True has_tag_Cons) blast
next
  case (skip c cs)
  from skip(1) have "\<not> tag_at c (strip_tags cs)" by (rule tag_at_strip_tags)
  with skip show ?case
    by (simp only: strip_tags_Cons if_False has_tag_Cons) blast
qed

lemma trim_Nil [simp]: "trim [] = []"
  by (simp add: trim_def)

lemma preview_eq:
  "preview t h = take 120 (if trim t \<noteq> [] then t else trim (collapse_ws (strip_tags h)))"
  by (cases "t = []") (simp_all add: preview_def js_or_def Let_def truthy_def)

text \<open>
  Claim C8, as the code has it. When the plain-text body is non-empty after trimming, the
  preview is the first 120 characters of that body as it is: \<^verbatim>\<open>trim\<close> is applied in
  the test only. Otherwise it is the first 120 characters of the HTML body with tags
  replaced by spaces, whitespace runs collapsed and the result trimmed: before the cut no
  tag is left, whitespace occurs as single blanks only, and neither end is whitespace.
\<close>

theorem preview_prefers_text:
  "preview textContent htmlContent =
     take 120 (if trim textContent \<noteq> [] then textContent
               else trim (collapse_ws (strip_tags htmlContent)))
   \<and> length (preview textContent htmlContent) \<le> 120
   \<and> \<not> has_tag (strip_tags htmlContent)
   \<and> single_spaced (trim (collapse_ws (strip_tags htmlContent)))
   \<and> (trim (collapse_ws (strip_tags htmlContent)) \<noteq> [] \<longrightarrow>
        \<not> is_space (hd (trim (collapse_ws (strip_tags htmlContent))))
        \<and> \<not> is_space (last (trim (collapse_ws (strip_tags htmlContent)))))"
  using trim_head [of "collapse_ws (strip_tags htmlContent)"]
  by (simp add: preview_eq no_tag_strip_tags single_spaced_trim single_spaced_collapse_ws)

text \<open>
  A text body with a leading space, and a blank text body with an HTML body.
\<close>

theorem preview_prefers_text_witness:
  "trim '' a'' \<noteq> [] \<and> preview '' a'' ''<b>x</b>'' = '' a''
   \<and> trim ''  '' = [] \<and> preview ''  '' ''<p>Hello   <b>world</b></p>  '' = ''Hello world''"
proof -
  have a: "trim '' a'' \<noteq> []" by code_simp
  have b: "trim ''  '' = []" by code_simp
  have c: "trim (collapse_ws (strip_tags ''<p>Hello   <b>world</b></p>  '')) = ''Hello world''"
    by code_simp
  from preview_prefers_text [of "'' a''" "''<b>x</b>''"]
    preview_prefers_text [of "''  ''" "''<p>Hello   <b>world</b></p>  ''"] a b c
  show ?thesis by simp
qed

text \<open>
  Claim C8 as first stated (the preview is the trimmed text) fails on a text body with a
  leading space: the preview keeps the space.
\<close>

theorem preview_trimmed_counterexample:
  "trim '' a'' \<noteq> [] \<and> take 120 (trim '' a'') = ''a'' \<and> preview '' a'' [] = '' a''"
  by code_simp

section \<open>Properties of the Address Resolver\<close>

lemma envelopeTo_spec: "envelopeTo msg = spec_envelope_value (msg_to msg)"
  by (cases "msg_to msg" rule: envelope_try.cases)
     (simp_all add: envelopeTo_def spec_envelope_value_def opt_or_def js_or_def truthy_def
        split: option.splits)

text \<open>
  Claim C9. The resolved recipient is the value the envelope gives (the string, or the
  first entry of the list) when that is non-empty, and the \<open>To\<close> header otherwise. An
  error raised while reading the envelope is caught: the header is used, and the
  \<^verbatim>\<open>try\<close> block of the handler still goes on to its forwarding call. When neither
  the envelope nor the header gives a value, the result is the empty string.
\<close>

theorem resolved_recipient_prefers_envelope:
  "resolvedRecipient msg =
     (if spec_envelope_value (msg_to msg) \<noteq> [] then spec_envelope_value (msg_to msg)
      else case hdr_to msg of None \<Rightarrow> [] | Some s \<Rightarrow> s)
   \<and> (envelope_try (msg_to msg) = Inl TypeError \<longrightarrow>
        resolvedRecipient msg = (case hdr_to msg of None \<Rightarrow> [] | Some s \<Rightarrow> s))
   \<and> (envelope_try (msg_to msg) = Inl TypeError \<longrightarrow>
        (\<exists>d. forwards (snd (email_try h e msg w)) = forwards w @ [d]))
   \<and> (spec_envelope_value (msg_to msg) = [] \<and> (hdr_to msg = None \<or> hdr_to msg = Some []) \<longrightarrow>
        resolvedRecipient msg = [])"
proof -
  have hdr: "toHeader msg = (case hdr_to msg of None \<Rightarrow> [] | Some s \<Rightarrow> s)"
    by (simp add: toHeader_def opt_or_def split: option.splits)
  have main: "resolvedRecipient msg =
     (if spec_envelope_value (msg_to msg) \<noteq> [] then spec_envelope_value (msg_to msg)
      else case hdr_to msg of None \<Rightarrow> [] | Some s \<Rightarrow> s)"
    by (simp add: resolvedRecipient_def envelopeTo_spec hdr js_or_def truthy_def)
  have caught: "envelope_try (msg_to msg) = Inl TypeError \<Longrightarrow> spec_envelope_value (msg_to msg) = []"
    using envelopeTo_spec [of msg] by (simp add: envelopeTo_def)
  have goes_on: "\<exists>d. forwards (snd (email_try h e msg w)) = forwards w @ [d]"
    by (simp add: email_try_forwards)
  from main caught goes_on show ?thesis by auto
qed

text \<open>
  An envelope list with an address, one whose first entry is \<^verbatim>\<open>null\<close>, an absent
  envelope, and a \<^verbatim>\<open>null\<close> entry with no header.
\<close>

theorem resolved_recipient_prefers_envelope_witness:
  "resolvedRecipient ex_message_fwd = ''fwd@example.com''
   \<and> envelope_try (msg_to ex_message_null) = Inl TypeError
   \<and> resolvedRecipient ex_message_null = ''h@b.c''
   \<and> resolvedRecipient ex_message_no_at = ''nobody''
   \<and> resolvedRecipient (ex_message_null\<lparr>hdr_to := None\<rparr>) = []"
proof -
  have a: "spec_envelope_value (msg_to ex_message_fwd) = ''fwd@example.com''" by code_simp
  have b: "envelope_try (msg_to ex_message_null) = Inl TypeError" by code_simp
  have c: "hdr_to ex_message_null = Some ''h@b.c''" by code_simp
  have d: "spec_envelope_value (msg_to ex_message_no_at) = []" "hdr_to ex_message_no_at = Some ''nobody''"
    by code_simp+
  have f: "spec_envelope_value (msg_to (ex_message_null\<lparr>hdr_to := None\<rparr>)) = []"
    "hdr_to (ex_message_null\<lparr>hdr_to := None\<rparr>) = None"
    by code_simp+
  from resolved_recipient_prefers_envelope [of ex_message_fwd]
    resolved_recipient_prefers_envelope [of ex_message_null]
    resolved_recipient_prefers_envelope [of ex_message_no_at]
    resolved_recipient_prefers_envelope [of "ex_message_null\<lparr>hdr_to := None\<rparr>"]
    a b c d f
  show ?thesis by simp
qed

end
